theory Spec2Isabelle
  imports Main "HOL-Library.Word"
begin

section \<open>The bare-core section of the EDS-TEM notebook\<close>

text \<open>
  The development follows the cells of
  \<^verbatim>\<open>electron_microscopy/EDS/TEM_EDS_Tutorial_HyperSpy_CoreShellNanoparticles.ipynb\<close>
  that compute on arrays themselves:
  \<^verbatim>\<open>
  pt_la = c.get_lines_intensity(['Pt_La'])[0]
  mask = pt_la > 6

  c_mask = c.vacuum_mask()
  c_mask.data = mask.data

  s_bare = (c * c_mask).sum(0).sum(0)
  \<close>
  The spectrum image \<open>c\<close> holds X-ray counts in an integer array: the notebook converts
  to floating point only afterwards (\<^verbatim>\<open>s_bare.change_dtype('float')\<close>), and the metadata it
  prints says \<^verbatim>\<open>binned = True\<close>. Integer arrays have a fixed width, and their sums are
  accumulated in 64 bits and wrap around silently. An entry is therefore a
  \<^typ>\<open>64 word\<close>: \<open>+\<close> and \<open>*\<close> wrap, and \<^const>\<open>sint\<close> reads the signed value.
  The data of an array is a nested list in the order of the array, \<open>data[y][x][e]\<close>:
  rows, pixels of a row, energy channels.
\<close>

subsection \<open>Shapes\<close>

definition is_image :: "nat \<Rightarrow> nat \<Rightarrow> 'a list list \<Rightarrow> bool" where
  "is_image ny nx m \<longleftrightarrow> length m = ny \<and> (\<forall>r \<in> set m. length r = nx)"

definition is_cube :: "nat \<Rightarrow> nat \<Rightarrow> nat \<Rightarrow> 'a list list list \<Rightarrow> bool" where
  "is_cube ny nx ne c \<longleftrightarrow> length c = ny \<and> (\<forall>row \<in> set c. is_image nx ne row)"

text \<open>
  An array carries its shape with its data. \<^verbatim>\<open>c_mask.data = mask.data\<close> makes the array
  of the thresholded mask the array that is multiplied with the cube, whatever its
  shape is.
\<close>

record cube =
  rows :: nat
  cols :: nat
  chans :: nat
  data :: "64 word list list list"

record mask_array =
  m_rows :: nat
  m_cols :: nat
  m_data :: "bool list list"

definition wf_cube :: "cube \<Rightarrow> bool" where
  "wf_cube c \<longleftrightarrow> is_cube (rows c) (cols c) (chans c) (data c)"

definition wf_mask :: "mask_array \<Rightarrow> bool" where
  "wf_mask m \<longleftrightarrow> is_image (m_rows m) (m_cols m) (m_data m)"

subsection \<open>Thresholding: \<^verbatim>\<open>mask = pt_la > 6\<close>\<close>



subsection \<open>Applying the mask: \<^verbatim>\<open>c * c_mask\<close>\<close>

text \<open>
  The product multiplies every energy channel of a pixel by the mask value of that
  pixel, \<open>True\<close> counting as 1 and \<open>False\<close> as 0. The notebook checks no shape. The
  product follows the broadcasting rule of the array library: on each navigation axis
  the two lengths must be equal, or one of them must be 1, and an axis of length 1 is
  repeated along the other array's axis; otherwise a \<^verbatim>\<open>ValueError\<close> is raised.
\<close>

datatype py_error = ValueError

definition mul_pixel :: "64 word list \<Rightarrow> bool \<Rightarrow> 64 word list" where
  "mul_pixel sp b = map (\<lambda>v. v * of_bool b) sp"

definition bcast_dim :: "nat \<Rightarrow> nat \<Rightarrow> nat option" where
  "bcast_dim a b =
     (if a = b then Some a else if a = 1 then Some b else if b = 1 then Some a else None)"

definition bcast_ix :: "nat \<Rightarrow> nat \<Rightarrow> nat" where
  "bcast_ix n i = (if n = 1 then 0 else i)"

definition mul_mask :: "cube \<Rightarrow> mask_array \<Rightarrow> py_error + cube" where
  "mul_mask c m =
     (case (bcast_dim (rows c) (m_rows m), bcast_dim (cols c) (m_cols m)) of
        (Some ry, Some rx) \<Rightarrow>
          Inr \<lparr>rows = ry, cols = rx, chans = chans c,
               data = map (\<lambda>y. map (\<lambda>x.
                        mul_pixel (data c ! bcast_ix (rows c) y ! bcast_ix (cols c) x)
                                  (m_data m ! bcast_ix (m_rows m) y ! bcast_ix (m_cols m) x))
                        [0..<rx]) [0..<ry]\<rparr>
      | _ \<Rightarrow> Inl ValueError)"

subsection \<open>Summing over the navigation axes: \<^verbatim>\<open>.sum(0).sum(0)\<close>\<close>

text \<open>
  \<open>sum_axis ne vs\<close> adds up a list of vectors of \<open>ne\<close> channels, from the zero vector,
  in the order of the list, each addition wrapping at 64 bits. The first \<^verbatim>\<open>.sum(0)\<close>
  removes the first navigation axis (the pixels of each row), the second one the
  remaining navigation axis (the rows).
\<close>

definition sum_axis :: "nat \<Rightarrow> 64 word list list \<Rightarrow> 64 word list" where
  "sum_axis ne vs = foldl (map2 (+)) (replicate ne 0) vs"

definition sum0_cube :: "nat \<Rightarrow> 64 word list list list \<Rightarrow> 64 word list list" where
  "sum0_cube ne d = map (sum_axis ne) d"

definition sum0_profile :: "nat \<Rightarrow> 64 word list list \<Rightarrow> 64 word list" where
  "sum0_profile ne p = sum_axis ne p"

definition sum_nav :: "cube \<Rightarrow> 64 word list" where
  "sum_nav c = sum0_profile (chans c) (sum0_cube (chans c) (data c))"

definition s_bare :: "cube \<Rightarrow> mask_array \<Rightarrow> py_error + 64 word list" where
  "s_bare c c_mask = (case mul_mask c c_mask of Inl err \<Rightarrow> Inl err | Inr p \<Rightarrow> Inr (sum_nav p))"

text \<open>The total intensity of a spectrum: the sum of its signed channel values.\<close>

definition total_intensity :: "64 word list \<Rightarrow> int" where
  "total_intensity s = (\<Sum>v\<leftarrow>s. sint v)"

subsection \<open>Small arrays for the examples\<close>

definition ex_cube :: cube where
  "ex_cube = \<lparr>rows = 2, cols = 2, chans = 2, data = [[[1, 2], [3, 4]], [[5, 6], [7, 8]]]\<rparr>"

definition ex_mask :: mask_array where
  "ex_mask = \<lparr>m_rows = 2, m_cols = 2, m_data = [[True, False], [False, True]]\<rparr>"

definition ex_all :: mask_array where
  "ex_all = \<lparr>m_rows = 2, m_cols = 2, m_data = [[True, True], [True, True]]\<rparr>"




section \<open>Sums\<close>

lemma foldl_add_nth:
  fixes acc :: "64 word list"
  shows "length acc = ne \<Longrightarrow> \<forall>v \<in> set vs. length v = ne \<Longrightarrow>
     length (foldl (map2 (+)) acc vs) = ne \<and>
     (\<forall>e<ne. foldl (map2 (+)) acc vs ! e = acc ! e + (\<Sum>v\<leftarrow>vs. v ! e))"
proof (induction vs arbitrary: acc)
  case Nil
  then show ?case by simp
next
  case (Cons v vs)
  have l: "length (map2 (+) acc v) = ne" using Cons.prems by simp
  have n: "\<forall>e<ne. map2 (+) acc v ! e = acc ! e + v ! e" using Cons.prems by simp
  from Cons.IH [OF l] Cons.prems(2) n show ?case by (simp add: add.assoc)
qed

lemma sum_axis_length: "\<forall>v \<in> set vs. length v = ne \<Longrightarrow> length (sum_axis ne vs) = ne"
  using foldl_add_nth [of "replicate ne 0" ne vs] by (simp add: sum_axis_def)

lemma sum_axis_nth:
  "\<forall>v \<in> set vs. length v = ne \<Longrightarrow> e < ne \<Longrightarrow> sum_axis ne vs ! e = (\<Sum>v\<leftarrow>vs. v ! e)"
  using foldl_add_nth [of "replicate ne 0" ne vs] by (simp add: sum_axis_def)

lemma sum_list_map_nth:
  fixes f :: "'b \<Rightarrow> 'a::comm_monoid_add"
  shows "(\<Sum>x\<leftarrow>xs. f x) = (\<Sum>i<length xs. f (xs ! i))"
proof -
  have "(\<Sum>x\<leftarrow>xs. f x) = (\<Sum>i = 0..<length xs. map f xs ! i)"
    using sum_list_sum_nth [of "map f xs"] by simp
  also have "\<dots> = (\<Sum>i = 0..<length xs. f (xs ! i))"
    by (rule sum.cong) simp_all
  finally show ?thesis by (simp add: atLeast0LessThan)
qed

lemma is_image_nth: "is_image ny nx m \<Longrightarrow> y < ny \<Longrightarrow> length (m ! y) = nx"
  unfolding is_image_def using nth_mem [of y m] by blast

lemma is_cube_nth: "is_cube ny nx ne c \<Longrightarrow> y < ny \<Longrightarrow> is_image nx ne (c ! y)"
  unfolding is_cube_def using nth_mem [of y c] by blast

lemma sum_nav_length: "wf_cube c \<Longrightarrow> length (sum_nav c) = chans c"
  unfolding sum_nav_def sum0_profile_def sum0_cube_def wf_cube_def
  by (rule sum_axis_length) (auto simp: is_cube_def is_image_def intro: sum_axis_length)

lemma sum_nav_nth:
  assumes "wf_cube c" "e < chans c"
  shows "sum_nav c ! e = (\<Sum>y<rows c. \<Sum>x<cols c. data c ! y ! x ! e)"
proof -
  let ?ne = "chans c" and ?d = "data c"
  have cube: "is_cube (rows c) (cols c) ?ne ?d" using assms(1) by (simp add: wf_cube_def)
  have rows: "\<forall>row \<in> set ?d. \<forall>sp \<in> set row. length sp = ?ne"
    using cube by (auto simp: is_cube_def is_image_def)
  have profile: "\<forall>v \<in> set (map (sum_axis ?ne) ?d). length v = ?ne"
    using rows by (auto intro: sum_axis_length)
  have "sum_nav c ! e = (\<Sum>row\<leftarrow>?d. sum_axis ?ne row ! e)"
    unfolding sum_nav_def sum0_profile_def sum0_cube_def
    using sum_axis_nth [OF profile assms(2)] by (simp add: comp_def)
  also have "\<dots> = (\<Sum>y<rows c. sum_axis ?ne (?d ! y) ! e)"
    using cube by (simp add: sum_list_map_nth is_cube_def)
  also have "\<dots> = (\<Sum>y<rows c. \<Sum>x<cols c. ?d ! y ! x ! e)"
  proof (rule sum.cong [OF refl])
    fix y assume "y \<in> {..<rows c}"
    then have y: "y < rows c" by simp
    have img: "is_image (cols c) ?ne (?d ! y)" using cube y by (rule is_cube_nth)
    have "sum_axis ?ne (?d ! y) ! e = (\<Sum>sp\<leftarrow>?d ! y. sp ! e)"
      using img assms(2) by (intro sum_axis_nth) (simp_all add: is_image_def)
    also have "\<dots> = (\<Sum>x<cols c. ?d ! y ! x ! e)"
      using img by (simp add: sum_list_map_nth is_image_def)
    finally show "sum_axis ?ne (?d ! y) ! e = (\<Sum>x<cols c. ?d ! y ! x ! e)" .
  qed
  finally show ?thesis .
qed

lemma sint_sum_exact:
  fixes f :: "'b \<Rightarrow> 64 word"
  assumes "- (2 ^ 63) \<le> (\<Sum>a\<in>A. sint (f a))" "(\<Sum>a\<in>A. sint (f a)) < 2 ^ 63"
  shows "sint (\<Sum>a\<in>A. f a) = (\<Sum>a\<in>A. sint (f a))"
proof -
  have w: "sint (word_of_int k :: 64 word) = signed_take_bit 63 k" for k
    by (simp add: sint_sbintrunc')
  have "(\<Sum>a\<in>A. f a) = word_of_int (\<Sum>a\<in>A. sint (f a))"
    by (simp add: of_int_sum)
  then have "sint (\<Sum>a\<in>A. f a) = signed_take_bit 63 (\<Sum>a\<in>A. sint (f a))"
    by (simp only: w)
  then show ?thesis using assms by (simp add: signed_take_bit_int_eq_self)
qed

section \<open>Index sums\<close>

lemma pair_sum:
  fixes ny nx :: nat and f :: "nat \<Rightarrow> nat \<Rightarrow> 'a::comm_monoid_add"
  shows "(\<Sum>y<ny. \<Sum>x<nx. (if P y x then f y x else 0)) =
         (\<Sum>(y, x) \<in> {(y, x). y < ny \<and> x < nx \<and> P y x}. f y x)"
proof -
  let ?A = "{..<ny} \<times> {..<nx}"
  let ?g = "\<lambda>(y, x). if P y x then f y x else 0"
  have "(\<Sum>y<ny. \<Sum>x<nx. (if P y x then f y x else 0)) = sum ?g ?A"
    by (simp add: sum.cartesian_product')
  also have "\<dots> = sum ?g {t \<in> ?A. case t of (y, x) \<Rightarrow> P y x}"
  proof (rule sum.mono_neutral_right)
    show "finite ?A" by (intro finite_cartesian_product finite_lessThan)
    show "{t \<in> ?A. case t of (y, x) \<Rightarrow> P y x} \<subseteq> ?A" by blast
    show "\<forall>t \<in> ?A - {t \<in> ?A. case t of (y, x) \<Rightarrow> P y x}. ?g t = 0"
      by (auto split: if_splits)
  qed
  also have "\<dots> = (\<Sum>(y, x) \<in> {t \<in> ?A. case t of (y, x) \<Rightarrow> P y x}. f y x)"
    by (rule sum.cong) auto
  also have "{t \<in> ?A. case t of (y, x) \<Rightarrow> P y x} = {(y, x). y < ny \<and> x < nx \<and> P y x}"
    by auto
  finally show ?thesis .
qed

lemma triple_sum:
  fixes ny nx ne :: nat and f :: "nat \<Rightarrow> nat \<Rightarrow> nat \<Rightarrow> 'a::comm_monoid_add"
  shows "(\<Sum>y<ny. \<Sum>x<nx. \<Sum>e<ne. (if P y x then f y x e else 0)) =
         (\<Sum>(y, x, e) \<in> {(y, x, e). y < ny \<and> x < nx \<and> e < ne \<and> P y x}. f y x e)"
proof -
  let ?A = "{..<ny} \<times> {..<nx} \<times> {..<ne}"
  let ?g = "\<lambda>(y, x, e). if P y x then f y x e else 0"
  have "(\<Sum>y<ny. \<Sum>x<nx. \<Sum>e<ne. (if P y x then f y x e else 0)) = sum ?g ?A"
    by (simp add: sum.cartesian_product')
  also have "\<dots> = sum ?g {t \<in> ?A. case t of (y, x, e) \<Rightarrow> P y x}"
  proof (rule sum.mono_neutral_right)
    show "finite ?A" by (intro finite_cartesian_product finite_lessThan)
    show "{t \<in> ?A. case t of (y, x, e) \<Rightarrow> P y x} \<subseteq> ?A" by blast
    show "\<forall>t \<in> ?A - {t \<in> ?A. case t of (y, x, e) \<Rightarrow> P y x}. ?g t = 0"
      by (auto split: if_splits)
  qed
  also have "\<dots> = (\<Sum>(y, x, e) \<in> {t \<in> ?A. case t of (y, x, e) \<Rightarrow> P y x}. f y x e)"
    by (rule sum.cong) auto
  also have "{t \<in> ?A. case t of (y, x, e) \<Rightarrow> P y x} =
             {(y, x, e). y < ny \<and> x < nx \<and> e < ne \<and> P y x}"
    by auto
  finally show ?thesis .
qed

lemma channel_sum_swap:
  fixes ny nx ne :: nat and f :: "nat \<Rightarrow> nat \<Rightarrow> nat \<Rightarrow> 'a::comm_monoid_add"
  shows "(\<Sum>e<ne. \<Sum>y<ny. \<Sum>x<nx. f y x e) = (\<Sum>y<ny. \<Sum>x<nx. \<Sum>e<ne. f y x e)"
proof -
  have "(\<Sum>e<ne. \<Sum>y<ny. \<Sum>x<nx. f y x e) = (\<Sum>y<ny. \<Sum>e<ne. \<Sum>x<nx. f y x e)"
    by (rule sum.swap)
  also have "\<dots> = (\<Sum>y<ny. \<Sum>x<nx. \<Sum>e<ne. f y x e)"
    by (intro sum.cong refl sum.swap)
  finally show ?thesis .
qed

section \<open>Totals of the aggregated spectrum\<close>

lemma sum_nav_word_total:
  assumes "wf_cube c"
  shows "sum_list (sum_nav c) = (\<Sum>y<rows c. \<Sum>x<cols c. \<Sum>e<chans c. data c ! y ! x ! e)"
proof -
  have "sum_list (sum_nav c) = (\<Sum>e<chans c. sum_nav c ! e)"
    using sum_list_sum_nth [of "sum_nav c"] sum_nav_length [OF assms]
    by (simp add: atLeast0LessThan)
  also have "\<dots> = (\<Sum>e<chans c. \<Sum>y<rows c. \<Sum>x<cols c. data c ! y ! x ! e)"
    by (intro sum.cong refl) (simp add: sum_nav_nth [OF assms])
  also have "\<dots> = (\<Sum>y<rows c. \<Sum>x<cols c. \<Sum>e<chans c. data c ! y ! x ! e)"
    by (rule channel_sum_swap)
  finally show ?thesis .
qed

lemma sum_nav_exact_total:
  assumes "wf_cube c"
    and "\<forall>e<chans c. - (2 ^ 63) \<le> (\<Sum>y<rows c. \<Sum>x<cols c. sint (data c ! y ! x ! e)) \<and>
                       (\<Sum>y<rows c. \<Sum>x<cols c. sint (data c ! y ! x ! e)) < 2 ^ 63"
  shows "total_intensity (sum_nav c) =
         (\<Sum>y<rows c. \<Sum>x<cols c. \<Sum>e<chans c. sint (data c ! y ! x ! e))"
proof -
  have ch: "sint (sum_nav c ! e) = (\<Sum>y<rows c. \<Sum>x<cols c. sint (data c ! y ! x ! e))"
    if e: "e < chans c" for e
  proof -
    let ?f = "\<lambda>(y, x). data c ! y ! x ! e"
    let ?A = "{..<rows c} \<times> {..<cols c}"
    have s: "(\<Sum>t\<in>?A. sint (?f t)) = (\<Sum>y<rows c. \<Sum>x<cols c. sint (data c ! y ! x ! e))"
      by (simp add: sum.cartesian_product' case_prod_unfold)
    have "sum_nav c ! e = (\<Sum>t\<in>?A. ?f t)"
      by (simp add: sum_nav_nth [OF assms(1) e] sum.cartesian_product' case_prod_unfold)
    then have "sint (sum_nav c ! e) = (\<Sum>t\<in>?A. sint (?f t))"
      using assms(2) e s by (simp only: sint_sum_exact)
    then show ?thesis using s by simp
  qed
  have "total_intensity (sum_nav c) = (\<Sum>e<chans c. sint (sum_nav c ! e))"
    using sum_nav_length [OF assms(1)] by (simp add: total_intensity_def sum_list_map_nth)
  also have "\<dots> = (\<Sum>e<chans c. \<Sum>y<rows c. \<Sum>x<cols c. sint (data c ! y ! x ! e))"
    by (intro sum.cong refl) (simp add: ch)
  also have "\<dots> = (\<Sum>y<rows c. \<Sum>x<cols c. \<Sum>e<chans c. sint (data c ! y ! x ! e))"
    by (rule channel_sum_swap)
  finally show ?thesis .
qed

section \<open>The masked cube\<close>

lemma bcast_ix_id: "i < n \<Longrightarrow> bcast_ix n i = i"
  by (simp add: bcast_ix_def)

lemma bcast_ix_less: "bcast_dim n k = Some r \<Longrightarrow> i < r \<Longrightarrow> bcast_ix n i < n"
  by (auto simp: bcast_dim_def bcast_ix_def split: if_splits)

lemma mul_mask_bcast:
  assumes "wf_cube c"
    and "bcast_dim (rows c) (m_rows m) = Some ry" "bcast_dim (cols c) (m_cols m) = Some rx"
  shows "\<exists>p. mul_mask c m = Inr p \<and> wf_cube p \<and> rows p = ry \<and> cols p = rx \<and>
           chans p = chans c \<and>
           (\<forall>y<ry. \<forall>x<rx. \<forall>e<chans c.
              data p ! y ! x ! e =
                data c ! bcast_ix (rows c) y ! bcast_ix (cols c) x ! e *
                of_bool (m_data m ! bcast_ix (m_rows m) y ! bcast_ix (m_cols m) x))"
proof -
  let ?px = "\<lambda>y x. mul_pixel (data c ! bcast_ix (rows c) y ! bcast_ix (cols c) x)
                          (m_data m ! bcast_ix (m_rows m) y ! bcast_ix (m_cols m) x)"
  let ?p = "\<lparr>rows = ry, cols = rx, chans = chans c,
             data = map (\<lambda>y. map (?px y) [0..<rx]) [0..<ry]\<rparr>"
  have run: "mul_mask c m = Inr ?p" using assms(2,3) by (simp add: mul_mask_def)
  have len: "length (data c ! bcast_ix (rows c) y ! bcast_ix (cols c) x) = chans c"
    if "y < ry" "x < rx" for y x
  proof -
    have "bcast_ix (rows c) y < rows c" using assms(2) that(1) by (rule bcast_ix_less)
    then have "is_image (cols c) (chans c) (data c ! bcast_ix (rows c) y)"
      using assms(1) by (simp add: wf_cube_def is_cube_nth)
    moreover have "bcast_ix (cols c) x < cols c" using assms(3) that(2) by (rule bcast_ix_less)
    ultimately show ?thesis by (rule is_image_nth)
  qed
  have wf: "wf_cube ?p"
    using len by (auto simp: wf_cube_def is_cube_def is_image_def mul_pixel_def)
  have pt: "\<forall>y<ry. \<forall>x<rx. \<forall>e<chans c.
              data ?p ! y ! x ! e =
                data c ! bcast_ix (rows c) y ! bcast_ix (cols c) x ! e *
                of_bool (m_data m ! bcast_ix (m_rows m) y ! bcast_ix (m_cols m) x)"
    using len by (simp add: mul_pixel_def)
  show ?thesis using run wf pt by (intro exI [of _ ?p]) simp
qed

lemma mul_mask_same_shape:
  assumes "wf_cube c" "m_rows m = rows c" "m_cols m = cols c"
  shows "\<exists>p. mul_mask c m = Inr p \<and> wf_cube p \<and> rows p = rows c \<and> cols p = cols c \<and>
           chans p = chans c \<and>
           (\<forall>y<rows c. \<forall>x<cols c. \<forall>e<chans c.
              data p ! y ! x ! e = (if m_data m ! y ! x then data c ! y ! x ! e else 0))"
proof -
  have "bcast_dim (rows c) (m_rows m) = Some (rows c)" "bcast_dim (cols c) (m_cols m) = Some (cols c)"
    using assms(2,3) by (simp_all add: bcast_dim_def)
  from mul_mask_bcast [OF assms(1) this] assms(2,3) show ?thesis
    by (auto simp: bcast_ix_id)
qed



section \<open>The example arrays\<close>

lemma ex_cube_wf: "wf_cube ex_cube"
  by (simp add: ex_cube_def wf_cube_def is_cube_def is_image_def)

lemma ex_mask_wf: "wf_mask ex_mask"
  by (simp add: ex_mask_def wf_mask_def is_image_def)

lemma upt_2: "[0..<2] = [0, 1]"
  by (simp add: upt_rec)

lemma ex_s_bare: "s_bare ex_cube ex_mask = Inr [8, 10]"
  by (simp add: s_bare_def mul_mask_def bcast_dim_def bcast_ix_def mul_pixel_def sum_nav_def
      sum0_profile_def sum0_cube_def sum_axis_def ex_cube_def ex_mask_def upt_2 numeral_2_eq_2)

lemma ex_true_pixels:
  "{(y, x). y < 2 \<and> x < 2 \<and> m_data ex_mask ! y ! x} = {(0, 0), (1, 1)}"
  by (auto simp: ex_mask_def less_2_cases_iff)


lemma ex_mul_all: "mul_mask ex_cube ex_all = Inr ex_cube"
  by (simp add: mul_mask_def bcast_dim_def bcast_ix_def mul_pixel_def ex_cube_def ex_all_def upt_2)


section \<open>Thresholding\<close>



section \<open>The masked sum\<close>

text \<open>
  Claim C1, amended. For a cube and a boolean mask of the cube's navigation shape,
  \<^verbatim>\<open>(c * c_mask).sum(0).sum(0)\<close> is a spectrum with one entry per energy channel. Each
  entry is the sum of the cube over the pixels where the mask is true, taken with
  wrap-around at 64 bits, and so is the sum of the entries. The total intensity equals
  the sum of the cube's values at the mask-true positions whenever, in every channel,
  the sum over the mask-true pixels lies in the signed 64-bit range.
\<close>

theorem masked_sum_total:
  assumes "wf_cube c" "wf_mask m" "m_rows m = rows c" "m_cols m = cols c"
  shows "\<exists>s. s_bare c m = Inr s \<and> length s = chans c \<and>
     (\<forall>e<chans c. s ! e =
        (\<Sum>(y, x) \<in> {(y, x). y < rows c \<and> x < cols c \<and> m_data m ! y ! x}. data c ! y ! x ! e)) \<and>
     sum_list s =
        (\<Sum>(y, x, e) \<in> {(y, x, e). y < rows c \<and> x < cols c \<and> e < chans c \<and> m_data m ! y ! x}.
           data c ! y ! x ! e) \<and>
     ((\<forall>e<chans c.
         - (2 ^ 63) \<le> (\<Sum>(y, x) \<in> {(y, x). y < rows c \<and> x < cols c \<and> m_data m ! y ! x}.
                          sint (data c ! y ! x ! e)) \<and>
         (\<Sum>(y, x) \<in> {(y, x). y < rows c \<and> x < cols c \<and> m_data m ! y ! x}.
            sint (data c ! y ! x ! e)) < 2 ^ 63) \<longrightarrow>
      total_intensity s =
        (\<Sum>(y, x, e) \<in> {(y, x, e). y < rows c \<and> x < cols c \<and> e < chans c \<and> m_data m ! y ! x}.
           sint (data c ! y ! x ! e)))"
proof -
  from mul_mask_same_shape [OF assms(1,3,4)]
  obtain p where run: "mul_mask c m = Inr p" and wf: "wf_cube p"
    and sh: "rows p = rows c" "cols p = cols c" "chans p = chans c"
    and pt: "\<forall>y<rows c. \<forall>x<cols c. \<forall>e<chans c.
               data p ! y ! x ! e = (if m_data m ! y ! x then data c ! y ! x ! e else 0)"
    by blast
  let ?s = "sum_nav p"
  have sb: "s_bare c m = Inr ?s" using run by (simp add: s_bare_def)
  have len: "length ?s = chans c" using sum_nav_length [OF wf] sh by simp
  have chan: "?s ! e =
      (\<Sum>(y, x) \<in> {(y, x). y < rows c \<and> x < cols c \<and> m_data m ! y ! x}. data c ! y ! x ! e)"
    if e: "e < chans c" for e
  proof -
    have "?s ! e = (\<Sum>y<rows c. \<Sum>x<cols c. data p ! y ! x ! e)"
      using sum_nav_nth [OF wf, of e] e sh by simp
    also have "\<dots> = (\<Sum>y<rows c. \<Sum>x<cols c. (if m_data m ! y ! x then data c ! y ! x ! e else 0))"
      using e by (intro sum.cong refl) (simp add: pt)
    finally show ?thesis by (simp only: pair_sum)
  qed
  have tot: "sum_list ?s =
      (\<Sum>(y, x, e) \<in> {(y, x, e). y < rows c \<and> x < cols c \<and> e < chans c \<and> m_data m ! y ! x}.
         data c ! y ! x ! e)"
  proof -
    have "sum_list ?s = (\<Sum>y<rows c. \<Sum>x<cols c. \<Sum>e<chans c. data p ! y ! x ! e)"
      using sum_nav_word_total [OF wf] sh by simp
    also have "\<dots> = (\<Sum>y<rows c. \<Sum>x<cols c. \<Sum>e<chans c.
                         (if m_data m ! y ! x then data c ! y ! x ! e else 0))"
      by (intro sum.cong refl) (simp add: pt)
    finally show ?thesis by (simp only: triple_sum)
  qed
  have exact: "total_intensity ?s =
      (\<Sum>(y, x, e) \<in> {(y, x, e). y < rows c \<and> x < cols c \<and> e < chans c \<and> m_data m ! y ! x}.
         sint (data c ! y ! x ! e))"
    if fits: "\<forall>e<chans c.
         - (2 ^ 63) \<le> (\<Sum>(y, x) \<in> {(y, x). y < rows c \<and> x < cols c \<and> m_data m ! y ! x}.
                          sint (data c ! y ! x ! e)) \<and>
         (\<Sum>(y, x) \<in> {(y, x). y < rows c \<and> x < cols c \<and> m_data m ! y ! x}.
            sint (data c ! y ! x ! e)) < 2 ^ 63"
  proof -
    have sp: "sint (data p ! y ! x ! e) = (if m_data m ! y ! x then sint (data c ! y ! x ! e) else 0)"
      if "y < rows c" "x < cols c" "e < chans c" for y x e
      using pt that by simp
    have ch: "(\<Sum>y<rows c. \<Sum>x<cols c. sint (data p ! y ! x ! e)) =
              (\<Sum>(y, x) \<in> {(y, x). y < rows c \<and> x < cols c \<and> m_data m ! y ! x}.
                 sint (data c ! y ! x ! e))" if e: "e < chans c" for e
    proof -
      have "(\<Sum>y<rows c. \<Sum>x<cols c. sint (data p ! y ! x ! e)) =
            (\<Sum>y<rows c. \<Sum>x<cols c. (if m_data m ! y ! x then sint (data c ! y ! x ! e) else 0))"
        using e by (intro sum.cong refl) (simp add: sp)
      then show ?thesis by (simp only: pair_sum)
    qed
    have "\<forall>e<chans p. - (2 ^ 63) \<le> (\<Sum>y<rows p. \<Sum>x<cols p. sint (data p ! y ! x ! e)) \<and>
                       (\<Sum>y<rows p. \<Sum>x<cols p. sint (data p ! y ! x ! e)) < 2 ^ 63"
      using fits ch sh by simp
    from sum_nav_exact_total [OF wf this]
    have "total_intensity ?s = (\<Sum>y<rows c. \<Sum>x<cols c. \<Sum>e<chans c. sint (data p ! y ! x ! e))"
      using sh by simp
    also have "\<dots> = (\<Sum>y<rows c. \<Sum>x<cols c. \<Sum>e<chans c.
                         (if m_data m ! y ! x then sint (data c ! y ! x ! e) else 0))"
      by (intro sum.cong refl) (simp add: sp)
    finally show ?thesis by (simp only: triple_sum)
  qed
  show ?thesis using sb len chan tot exact by blast
qed

theorem masked_sum_total_witness:
  "s_bare ex_cube ex_mask = Inr [8, 10] \<and> total_intensity [8, 10] = 18 \<and>
   (\<Sum>(y, x, e) \<in> {(y, x, e). y < 2 \<and> x < 2 \<and> e < 2 \<and> m_data ex_mask ! y ! x}.
      sint (data ex_cube ! y ! x ! e)) = 18"
proof -
  have sh: "m_rows ex_mask = rows ex_cube" "m_cols ex_mask = cols ex_cube"
    by (simp_all add: ex_cube_def ex_mask_def)
  have dims: "rows ex_cube = 2" "cols ex_cube = 2" "chans ex_cube = 2"
    by (simp_all add: ex_cube_def)
  have fits: "\<forall>e<2.
      - (2 ^ 63) \<le> (\<Sum>(y, x) \<in> {(y, x). y < 2 \<and> x < 2 \<and> m_data ex_mask ! y ! x}.
                       sint (data ex_cube ! y ! x ! e)) \<and>
      (\<Sum>(y, x) \<in> {(y, x). y < 2 \<and> x < 2 \<and> m_data ex_mask ! y ! x}.
         sint (data ex_cube ! y ! x ! e)) < 2 ^ 63"
    unfolding ex_true_pixels by (simp add: ex_cube_def less_2_cases_iff)
  have t: "total_intensity [8, 10] = 18" by (simp add: total_intensity_def)
  from masked_sum_total [OF ex_cube_wf ex_mask_wf sh] fits ex_s_bare t
  show ?thesis unfolding dims by auto
qed

text \<open>
  As first stated, without the range condition, claim C1 fails: two mask-true counts
  \<open>2^63 - 1\<close> and \<open>1\<close> in one channel add up to \<open>2^63\<close>, and the spectrum holds
  \<open>- 2^63\<close>.
\<close>

theorem masked_sum_total_counterexample:
  "wf_cube \<lparr>rows = 2, cols = 1, chans = 1, data = [[[9223372036854775807]], [[1]]]\<rparr> \<and>
   wf_mask \<lparr>m_rows = 2, m_cols = 1, m_data = [[True], [True]]\<rparr> \<and>
   s_bare \<lparr>rows = 2, cols = 1, chans = 1, data = [[[9223372036854775807]], [[1]]]\<rparr>
          \<lparr>m_rows = 2, m_cols = 1, m_data = [[True], [True]]\<rparr> = Inr [9223372036854775808] \<and>
   total_intensity [9223372036854775808] = - 9223372036854775808 \<and>
   sint (9223372036854775807 :: 64 word) + sint (1 :: 64 word) = 9223372036854775808"
  by (simp add: wf_cube_def wf_mask_def is_cube_def is_image_def s_bare_def mul_mask_def
      bcast_dim_def bcast_ix_def mul_pixel_def sum_nav_def sum0_profile_def sum0_cube_def
      sum_axis_def total_intensity_def upt_2 numeral_2_eq_2)

section \<open>The masked cube\<close>




section \<open>A mask of another shape\<close>




end
